theory Spec2Isabelle
  imports Main "HOL-Library.Sublist"
begin

section \<open>Strings of the host language\<close>

text \<open>
  A JavaScript string is modelled by the bytes of its UTF-8 encoding (\<^typ>\<open>string\<close>).
  For well-formed strings equality, \<open>startsWith\<close>, \<open>endsWith\<close> and \<open>replace\<close> agree with
  their code-unit versions. A string holding a lone surrogate has no UTF-8 encoding and is
  outside the model (\<open>encodeURIComponent\<close> throws \<open>URIError\<close> on it).
\<close>

definition endsWith :: "string \<Rightarrow> string \<Rightarrow> bool" where
  "endsWith s t = suffix t s"

definition startsWith :: "string \<Rightarrow> string \<Rightarrow> bool" where
  "startsWith s t = prefix t s"

text \<open>
  \<open>s.replace(pat, rep)\<close> with a string pattern replaces the first occurrence of \<open>pat\<close>
  only, scanning from the left; \<open>rep\<close> is only ever the empty string here, so the special
  \<open>$\<close> replacement patterns play no role.
\<close>

fun replace :: "string \<Rightarrow> string \<Rightarrow> string \<Rightarrow> string" where
  "replace [] pat rep = (if pat = [] then rep else [])"
| "replace (c # cs) pat rep =
     (if prefix pat (c # cs) then rep @ drop (length pat) (c # cs)
      else c # replace cs pat rep)"

text \<open>\<open>a || d\<close> on an optional string: \<open>undefined\<close>, \<open>null\<close> and \<open>""\<close> are falsy.\<close>

definition orElse :: "string option \<Rightarrow> string \<Rightarrow> string" where
  "orElse a d = (case a of None \<Rightarrow> d | Some s \<Rightarrow> if s = [] then d else s)"

subsection \<open>\<open>encodeURIComponent\<close>\<close>

text \<open>
  Every byte outside the unreserved set \<open>A-Z a-z 0-9 - _ . ! ~ * ' ( )\<close> becomes
  \<open>%XX\<close> with upper-case hexadecimal digits.
\<close>

definition uriUnreserved :: "char \<Rightarrow> bool" where
  "uriUnreserved c =
     (c \<in> set (''ABCDEFGHIJKLMNOPQRSTUVWXYZabcdefghijklmnopqrstuvwxyz0123456789-_.!~*()''
               @ [CHR 0x27]))"

definition hexDigit :: "nat \<Rightarrow> char" where
  "hexDigit n = ''0123456789ABCDEF'' ! n"

definition percentEncodeByte :: "char \<Rightarrow> string" where
  "percentEncodeByte c =
     [CHR ''%'', hexDigit (of_char c div 16), hexDigit (of_char c mod 16)]"

definition encodeURIComponent :: "string \<Rightarrow> string" where
  "encodeURIComponent s =
     concat (map (\<lambda>c. if uriUnreserved c then [c] else percentEncodeByte c) s)"

subsection \<open>\<open>URLSearchParams\<close>\<close>

text \<open>
  The \<open>application/x-www-form-urlencoded\<close> parser behind \<open>searchParams.get\<close>: split the
  query at \<open>&\<close>, skip empty pieces, split each piece at its first \<open>=\<close>, turn \<open>+\<close> into a
  space, percent-decode name and value. A \<open>%\<close> that is not followed by two hexadecimal
  digits stays as it is.
\<close>

fun splitOn :: "char \<Rightarrow> string \<Rightarrow> string list" where
  "splitOn d [] = [[]]"
| "splitOn d (c # cs) =
     (if c = d then [] # splitOn d cs
      else (case splitOn d cs of [] \<Rightarrow> [[c]] | x # xs \<Rightarrow> (c # x) # xs))"

definition hexValue :: "char \<Rightarrow> nat option" where
  "hexValue c =
     (let n = (of_char c :: nat) in
      if 48 \<le> n \<and> n \<le> 57 then Some (n - 48)
      else if 65 \<le> n \<and> n \<le> 70 then Some (n - 55)
      else if 97 \<le> n \<and> n \<le> 102 then Some (n - 87)
      else None)"

fun percentDecode :: "string \<Rightarrow> string" where
  "percentDecode (c # h # l # rest) =
     (if c = CHR ''%'' then
        (case (hexValue h, hexValue l) of
           (Some a, Some b) \<Rightarrow> char_of (16 * a + b) # percentDecode rest
         | _ \<Rightarrow> c # percentDecode (h # l # rest))
      else c # percentDecode (h # l # rest))"
| "percentDecode (c # cs) = c # percentDecode cs"
| "percentDecode [] = []"

definition plusToSpace :: "string \<Rightarrow> string" where
  "plusToSpace s = map (\<lambda>c. if c = CHR ''+'' then CHR '' '' else c) s"

definition parsePair :: "string \<Rightarrow> string \<times> string" where
  "parsePair piece =
     (let name = takeWhile (\<lambda>c. c \<noteq> CHR ''='') piece;
          val = drop (length name + 1) piece
      in (percentDecode (plusToSpace name), percentDecode (plusToSpace val)))"

definition parseQuery :: "string \<Rightarrow> (string \<times> string) list" where
  "parseQuery query = map parsePair (filter (\<lambda>piece. piece \<noteq> []) (splitOn CHR ''&'' query))"

text \<open>\<open>searchParams.get(name)\<close>: the value of the first pair with that name, else \<open>null\<close>.\<close>

definition searchParams_get :: "(string \<times> string) list \<Rightarrow> string \<Rightarrow> string option" where
  "searchParams_get params name = map_of params name"

text \<open>The query of a relative URL: what follows the first \<open>?\<close>, up to a \<open>#\<close>.\<close>

definition extractQuery :: "string \<Rightarrow> string" where
  "extractQuery href =
     takeWhile (\<lambda>c. c \<noteq> CHR ''#'') (drop 1 (dropWhile (\<lambda>c. c \<noteq> CHR ''?'') href))"

text \<open>The characters that delimit a query and its pairs, and \<open>+\<close>, which reads as a space.\<close>

definition queryDelimiter :: "char \<Rightarrow> bool" where
  "queryDelimiter c = (c \<in> set ''&=+#?'')"

section \<open>Role-based routing: \<open>RoleBaseRoute\<close>\<close>

record RoleRoute =
  url :: string
  role :: "string list"
  redirect :: "string option"
  needAuth :: "bool option"

definition routeRoles :: "RoleRoute list" where
  "routeRoles =
     [\<lparr>url = ''/admin/*'', role = [''superadmin''], redirect = None, needAuth = Some True\<rparr>,
      \<lparr>url = ''/contact/*'', role = [''anonymous'', ''user'', ''admin'', ''superadmin''],
       redirect = None, needAuth = None\<rparr>]"

definition pageAccessOnlyIfUnAuthenticated :: "string list" where
  "pageAccessOnlyIfUnAuthenticated =
     [''/signin'', ''/signup'', ''/reset-password'', ''/verify-email'']"

text \<open>
  The outcome of an effect of the component, in the vocabulary of the specification:
  \<open>allowed = False\<close> says that the effect called \<open>router.replace\<close> or \<open>router.push\<close>,
  \<open>redirectTo\<close> is the target of that call and \<open>reason\<close> names the branch that made it.
\<close>

datatype reason = NONE | NOT_AUTHENTICATED | MISSING_ROLE | AUTH_ONLY_PAGE

record GuardDecision =
  allowed :: bool
  redirectTo :: "string option"
  reason :: reason

definition allow :: GuardDecision where
  "allow = \<lparr>allowed = True, redirectTo = None, reason = NONE\<rparr>"

definition deny :: "string \<Rightarrow> reason \<Rightarrow> GuardDecision" where
  "deny target why = \<lparr>allowed = False, redirectTo = Some target, reason = why\<rparr>"

text \<open>Step 1: the callback of \<open>routeRoles.find\<close> and the route it finds.\<close>

definition routeMatches :: "string \<Rightarrow> RoleRoute \<Rightarrow> bool" where
  "routeMatches pathName route =
     (if url route = pathName then True
      else if endsWith (url route) ''/*'' then
        (let basePath = replace (url route) ''/*'' '''' in startsWith pathName basePath)
      else False)"

definition currentRoute :: "RoleRoute list \<Rightarrow> string \<Rightarrow> RoleRoute option" where
  "currentRoute table pathName = find (routeMatches pathName) table"

definition hasRequiredRole :: "RoleRoute \<Rightarrow> string list \<Rightarrow> bool" where
  "hasRequiredRole route userRoles = list_ex (\<lambda>r. r \<in> set userRoles) (role route)"

definition signInPathWithReturnTo :: "string \<Rightarrow> string" where
  "signInPathWithReturnTo pathName = ''/signin?redirect='' @ encodeURIComponent pathName"

text \<open>
  Steps 2 and 3: the body of the second effect once authentication has loaded. The route
  table is a parameter; the component reads the constant \<^const>\<open>routeRoles\<close>.
\<close>

definition decide :: "RoleRoute list \<Rightarrow> string \<Rightarrow> bool \<Rightarrow> string list \<Rightarrow> GuardDecision" where
  "decide table pathName isAuthenticated userRoles =
     (case currentRoute table pathName of
        None \<Rightarrow> allow
      | Some route \<Rightarrow>
          if needAuth route = Some True \<and> \<not> isAuthenticated then
            deny (signInPathWithReturnTo pathName) NOT_AUTHENTICATED
          else if isAuthenticated then
            (if \<not> hasRequiredRole route userRoles then
               deny (orElse (redirect route) ''/'') MISSING_ROLE
             else allow)
          else allow)"

text \<open>
  The body of the third effect once nothing is loading; \<open>searchRedirect\<close> is
  \<open>searchParams.get("redirect")\<close>, and the list of pages is a parameter.
\<close>

definition authOnlyCheck :: "string list \<Rightarrow> string \<Rightarrow> bool \<Rightarrow> string option \<Rightarrow> GuardDecision" where
  "authOnlyCheck pages pathName isAuthenticated searchRedirect =
     (if isAuthenticated \<and> pathName \<in> set pages then
        deny (orElse searchRedirect ''/'') AUTH_ONLY_PAGE
      else allow)"

definition resolveReturnTo :: "string \<Rightarrow> string" where
  "resolveReturnTo query = orElse (searchParams_get (parseQuery query) ''redirect'') ''/''"

text \<open>
  One pass of the two guarding effects over the values of one render, in the order the
  component declares them: each effect returns early while its loading flags are set, and
  the redirects that were issued are listed in order.
\<close>

definition redirectsIssued ::
  "bool \<Rightarrow> bool \<Rightarrow> RoleRoute list \<Rightarrow> string list \<Rightarrow> string \<Rightarrow> bool \<Rightarrow> string list \<Rightarrow>
   string option \<Rightarrow> GuardDecision list" where
  "redirectsIssued isAuthLoading isLoading table pages pathName isAuthenticated userRoles
     searchRedirect =
     filter (\<lambda>d. \<not> allowed d)
       ((if isAuthLoading then [] else [decide table pathName isAuthenticated userRoles])
        @ (if isAuthLoading \<or> isLoading then []
           else [authOnlyCheck pages pathName isAuthenticated searchRedirect]))"

section \<open>Roles and permissions: \<open>hasPermission\<close>\<close>

text \<open>
  \<open>ROLES\<close> is an object literal; \<open>ROLES[role]\<close> for a key it does not own has no
  \<open>includes\<close> method to call (it is \<open>undefined\<close>, or a member of \<open>Object.prototype\<close>),
  so the call throws a \<open>TypeError\<close>. \<open>Array.prototype.some\<close> stops at the first role
  whose callback returns true.
\<close>

datatype error = TypeError

record User =
  roles :: "string list"
  user_id :: string

definition ROLES :: "string \<Rightarrow> string list option" where
  "ROLES = map_of
     [(''admin'', [''view:comments'', ''create:comments'', ''update:comments'', ''delete:comments'']),
      (''moderator'', [''view:comments'', ''create:comments'', ''delete:comments'']),
      (''user'', [''view:comments'', ''create:comments''])]"

fun someRoleIncludes :: "string list \<Rightarrow> string \<Rightarrow> error + bool" where
  "someRoleIncludes [] permission = Inr False"
| "someRoleIncludes (r # rest) permission =
     (case ROLES r of
        None \<Rightarrow> Inl TypeError
      | Some perms \<Rightarrow> if permission \<in> set perms then Inr True else someRoleIncludes rest permission)"

definition hasPermission :: "User \<Rightarrow> string \<Rightarrow> error + bool" where
  "hasPermission user permission = someRoleIncludes (roles user) permission"

section \<open>Middleware chaining: \<open>chainMiddleware\<close>\<close>

datatype 'r NextMiddlewareResult = Response 'r | NoResponse

type_synonym ('q, 'e, 'r) CustomMiddleware = "'q \<Rightarrow> 'e \<Rightarrow> 'r \<Rightarrow> 'r NextMiddlewareResult"

type_synonym ('q, 'e, 'r) MiddlewareFactory =
  "('q, 'e, 'r) CustomMiddleware \<Rightarrow> ('q, 'e, 'r) CustomMiddleware"

text \<open>
  \<open>functions[index]\<close> is \<open>undefined\<close> for an index outside \<open>0 .. length - 1\<close>; every element
  of the array is a function, hence truthy.
\<close>

function (domintros) chainMiddleware ::
  "('q, 'e, 'r) MiddlewareFactory list \<Rightarrow> int \<Rightarrow> ('q, 'e, 'r) CustomMiddleware" where
  "chainMiddleware functions index =
     (if 0 \<le> index \<and> index < int (length functions) then
        (functions ! nat index) (chainMiddleware functions (index + 1))
      else (\<lambda>request event response. Response response))"
  by pat_completeness auto
termination
  by (relation "measure (\<lambda>(functions, index). nat (int (length functions) - index))") auto

declare chainMiddleware.simps [simp del]

section \<open>Route tables used in the examples\<close>

definition adminPolicy :: RoleRoute where
  "adminPolicy =
     \<lparr>url = ''/admin/*'', role = [''superadmin''], redirect = None, needAuth = Some True\<rparr>"

definition billingPolicy :: RoleRoute where
  "billingPolicy =
     \<lparr>url = ''/admin/billing/*'', role = [''billing''], redirect = None, needAuth = Some True\<rparr>"

definition billingExact :: RoleRoute where
  "billingExact =
     \<lparr>url = ''/admin/billing'', role = [''billing''], redirect = None, needAuth = Some True\<rparr>"

definition nestedPolicy :: RoleRoute where
  "nestedPolicy = \<lparr>url = ''/a/*/b'' @ ''/*'', role = [], redirect = None, needAuth = None\<rparr>"

section \<open>The pattern matcher\<close>

lemma find_Some_split:
  "find P xs = Some r \<longleftrightarrow>
     (\<exists>pre post. xs = pre @ r # post \<and> P r \<and> list_all (\<lambda>q. \<not> P q) pre)"
proof (induction xs)
  case Nil
  then show ?case by simp
next
  case (Cons a xs)
  show ?case
  proof (cases "P a")
    case True
    have "(\<exists>pre post. a # xs = pre @ r # post \<and> P r \<and> list_all (\<lambda>q. \<not> P q) pre) \<longleftrightarrow> a = r"
    proof
      assume "\<exists>pre post. a # xs = pre @ r # post \<and> P r \<and> list_all (\<lambda>q. \<not> P q) pre"
      then obtain pre post where h: "a # xs = pre @ r # post" "list_all (\<lambda>q. \<not> P q) pre"
        by blast
      show "a = r"
      proof (cases pre)
        case Nil
        with h show ?thesis by simp
      next
        case (Cons b pre')
        with h True show ?thesis by simp
      qed
    next
      assume "a = r"
      with True have "a # xs = [] @ r # xs \<and> P r \<and> list_all (\<lambda>q. \<not> P q) []" by simp
      then show "\<exists>pre post. a # xs = pre @ r # post \<and> P r \<and> list_all (\<lambda>q. \<not> P q) pre"
        by blast
    qed
    with True show ?thesis by simp
  next
    case False
    have "(\<exists>pre post. a # xs = pre @ r # post \<and> P r \<and> list_all (\<lambda>q. \<not> P q) pre)
          \<longleftrightarrow> (\<exists>pre post. xs = pre @ r # post \<and> P r \<and> list_all (\<lambda>q. \<not> P q) pre)"
    proof
      assume "\<exists>pre post. a # xs = pre @ r # post \<and> P r \<and> list_all (\<lambda>q. \<not> P q) pre"
      then obtain pre post
        where h: "a # xs = pre @ r # post" "P r" "list_all (\<lambda>q. \<not> P q) pre"
        by blast
      show "\<exists>pre post. xs = pre @ r # post \<and> P r \<and> list_all (\<lambda>q. \<not> P q) pre"
      proof (cases pre)
        case Nil
        with h False show ?thesis by simp
      next
        case (Cons b pre')
        with h have "xs = pre' @ r # post \<and> P r \<and> list_all (\<lambda>q. \<not> P q) pre'" by simp
        then show ?thesis by blast
      qed
    next
      assume "\<exists>pre post. xs = pre @ r # post \<and> P r \<and> list_all (\<lambda>q. \<not> P q) pre"
      then obtain pre post
        where h: "xs = pre @ r # post" "P r" "list_all (\<lambda>q. \<not> P q) pre"
        by blast
      with False
      have "a # xs = (a # pre) @ r # post \<and> P r \<and> list_all (\<lambda>q. \<not> P q) (a # pre)"
        by simp
      then show "\<exists>pre post. a # xs = pre @ r # post \<and> P r \<and> list_all (\<lambda>q. \<not> P q) pre"
        by blast
    qed
    with False Cons.IH show ?thesis by simp
  qed
qed

lemma find_None_all: "find P xs = None \<longleftrightarrow> list_all (\<lambda>q. \<not> P q) xs"
  by (induction xs) auto

text \<open>
  C1, as stated, fails. With \<open>/admin/*\<close> declared before \<open>/admin/billing/*\<close> the path
  \<open>/admin/billing/invoice\<close> is given the \<open>/admin/*\<close> policy although the longer pattern
  matches too, and with \<open>/admin/*\<close> declared before the exact pattern \<open>/admin/billing\<close>
  the path \<open>/admin/billing\<close> is given the wildcard policy.
\<close>

theorem currentRoute_not_by_specificity:
  "currentRoute [adminPolicy, billingPolicy] ''/admin/billing/invoice'' = Some adminPolicy
   \<and> routeMatches ''/admin/billing/invoice'' billingPolicy
   \<and> adminPolicy \<noteq> billingPolicy
   \<and> currentRoute [adminPolicy, billingExact] ''/admin/billing'' = Some adminPolicy
   \<and> url billingExact = ''/admin/billing''
   \<and> adminPolicy \<noteq> billingExact"
  by code_simp

text \<open>
  C1, amended: the matcher selects the first policy in declaration order whose pattern
  matches the path, exactly or as a wildcard, and none when no pattern matches. A more
  specific pattern wins only by being declared earlier: with \<open>/admin/billing/*\<close> declared
  before \<open>/admin/*\<close> the path \<open>/admin/billing/invoice\<close> is given the
  \<open>/admin/billing/*\<close> policy.
\<close>

theorem currentRoute_first_match:
  "(currentRoute table pathName = Some r \<longleftrightarrow>
      (\<exists>pre post. table = pre @ r # post \<and> routeMatches pathName r
         \<and> list_all (\<lambda>q. \<not> routeMatches pathName q) pre))
   \<and> (currentRoute table pathName = None \<longleftrightarrow>
        list_all (\<lambda>q. \<not> routeMatches pathName q) table)
   \<and> currentRoute [billingPolicy, adminPolicy] ''/admin/billing/invoice'' = Some billingPolicy"
proof -
  have "currentRoute [billingPolicy, adminPolicy] ''/admin/billing/invoice'' = Some billingPolicy"
    by code_simp
  then show ?thesis
    unfolding currentRoute_def by (simp add: find_Some_split find_None_all)
qed

text \<open>
  C9: for a pattern \<open>B + "/*"\<close> a path should match exactly when it starts with \<open>B\<close>.
  The base path is computed by removing the first \<open>/*\<close> of the pattern, not the trailing
  one, so for \<open>B = /a/*/b\<close> the base path is \<open>/a/b/*\<close>: the path \<open>/a/*/b/x\<close> starts with
  \<open>B\<close> and does not match, and \<open>/a/b/*\<close> matches and does not start with \<open>B\<close>. A pattern
  without an inner \<open>/*\<close> behaves as claimed: \<open>/administrator\<close> matches \<open>/admin/*\<close>.
\<close>

theorem routeMatches_inner_marker:
  "url nestedPolicy = ''/a/*/b'' @ ''/*''
   \<and> replace (url nestedPolicy) ''/*'' '''' = ''/a/b/*''
   \<and> startsWith ''/a/*/b/x'' ''/a/*/b'' \<and> \<not> routeMatches ''/a/*/b/x'' nestedPolicy
   \<and> routeMatches ''/a/b/*'' nestedPolicy \<and> \<not> startsWith ''/a/b/*'' ''/a/*/b''
   \<and> routeMatches ''/administrator'' adminPolicy"
  by code_simp

text \<open>
  For a pattern \<open>B + "/*"\<close> whose \<open>B\<close> holds no \<open>/*\<close>, the wildcard is the one removed and
  a path matches exactly when it starts with \<open>B\<close>, with no regard to path segments.
\<close>

lemma replace_trailing_marker:
  "\<not> sublist ''/*'' B \<Longrightarrow> replace (B @ ''/*'') ''/*'' '''' = B"
proof (induction B)
  case Nil
  then show ?case by simp
next
  case (Cons c cs)
  from Cons.prems have np: "\<not> prefix ''/*'' (c # cs)" and ns: "\<not> sublist ''/*'' cs"
    by (auto simp: sublist_Cons_right)
  from np have np': "\<not> prefix ''/*'' (c # cs @ ''/*'')"
    by (cases cs) auto
  have "replace ((c # cs) @ ''/*'') ''/*'' '''' = c # replace (cs @ ''/*'') ''/*'' ''''"
    by (simp only: append_Cons replace.simps np' if_False)
  with Cons.IH [OF ns] show ?case by simp
qed

theorem routeMatches_prefix_law:
  assumes "\<not> sublist ''/*'' B" and "url route = B @ ''/*''"
  shows "routeMatches pathName route \<longleftrightarrow> startsWith pathName B"
  using assms
  by (auto simp: routeMatches_def Let_def endsWith_def startsWith_def
        replace_trailing_marker suffix_def)

theorem routeMatches_prefix_law_witness:
  "\<not> sublist ''/*'' ''/admin'' \<and> url adminPolicy = ''/admin'' @ ''/*''
   \<and> startsWith ''/administrator'' ''/admin''
   \<and> routeMatches ''/administrator'' adminPolicy"
proof -
  have h1: "\<not> sublist ''/*'' ''/admin''" by code_simp
  have h2: "url adminPolicy = ''/admin'' @ ''/*''" by (simp add: adminPolicy_def)
  have h3: "startsWith ''/administrator'' ''/admin''" by (simp add: startsWith_def)
  from routeMatches_prefix_law [OF h1 h2, of "''/administrator''"] h1 h2 h3
  show ?thesis by simp
qed

section \<open>The decision of the second effect\<close>

lemma decide_Some:
  "currentRoute table pathName = Some route \<Longrightarrow>
   decide table pathName isAuthenticated userRoles =
     (if needAuth route = Some True \<and> \<not> isAuthenticated then
        deny (signInPathWithReturnTo pathName) NOT_AUTHENTICATED
      else if isAuthenticated \<and> \<not> hasRequiredRole route userRoles then
        deny (orElse (redirect route) ''/'') MISSING_ROLE
      else allow)"
  by (simp add: decide_def)

lemma hasRequiredRole_iff:
  "hasRequiredRole route userRoles \<longleftrightarrow> set userRoles \<inter> set (role route) \<noteq> {}"
  by (auto simp: hasRequiredRole_def list_ex_iff)

text \<open>
  C3: an authenticated identity holding none of the roles of the matched policy is denied
  with reason \<open>MISSING_ROLE\<close> and sent to \<open>currentRoute.redirect || "/"\<close>: the fallback of
  the policy when it has one (a non-empty string), else \<open>/\<close>. The scenario of the claim
  is the last conjunct.
\<close>

theorem decide_missing_role:
  assumes "currentRoute table pathName = Some route"
    and "isAuthenticated"
    and "set userRoles \<inter> set (role route) = {}"
  shows "decide table pathName isAuthenticated userRoles =
           \<lparr>allowed = False, redirectTo = Some (orElse (redirect route) ''/''),
            reason = MISSING_ROLE\<rparr>
         \<and> (redirect route = None \<longrightarrow>
              redirectTo (decide table pathName isAuthenticated userRoles) = Some ''/'')
         \<and> (\<forall>fallback. redirect route = Some fallback \<and> fallback \<noteq> [] \<longrightarrow>
              redirectTo (decide table pathName isAuthenticated userRoles) = Some fallback)
         \<and> decide [adminPolicy] ''/admin/dashboard'' True [''user''] =
              \<lparr>allowed = False, redirectTo = Some ''/'', reason = MISSING_ROLE\<rparr>"
proof -
  from assms(3) have "\<not> hasRequiredRole route userRoles"
    by (simp add: hasRequiredRole_iff)
  with assms(1,2) have d: "decide table pathName isAuthenticated userRoles =
      deny (orElse (redirect route) ''/'') MISSING_ROLE"
    by (simp add: decide_Some)
  have "decide [adminPolicy] ''/admin/dashboard'' True [''user''] =
      \<lparr>allowed = False, redirectTo = Some ''/'', reason = MISSING_ROLE\<rparr>"
    by code_simp
  then show ?thesis
    unfolding d by (simp add: deny_def orElse_def)
qed

theorem decide_missing_role_witness:
  "currentRoute routeRoles ''/admin/dashboard'' = Some adminPolicy
   \<and> set [''user'', ''admin''] \<inter> set (role adminPolicy) = {}
   \<and> decide routeRoles ''/admin/dashboard'' True [''user'', ''admin''] =
       \<lparr>allowed = False, redirectTo = Some ''/'', reason = MISSING_ROLE\<rparr>"
proof -
  have h1: "currentRoute routeRoles ''/admin/dashboard'' = Some adminPolicy"
    by code_simp
  have h3: "set [''user'', ''admin''] \<inter> set (role adminPolicy) = {}"
    by (simp add: adminPolicy_def)
  have h4: "orElse (redirect adminPolicy) ''/'' = ''/''"
    by (simp add: adminPolicy_def orElse_def)
  from decide_missing_role [OF h1 _ h3] h1 h3 h4 show ?thesis
    by simp
qed

text \<open>
  C4: a path that no policy of the table matches is allowed, with reason \<open>NONE\<close> and no
  redirect, whoever asks.
\<close>

theorem decide_unlisted_allowed:
  assumes "\<forall>route \<in> set table. \<not> routeMatches pathName route"
  shows "decide table pathName isAuthenticated userRoles =
           \<lparr>allowed = True, redirectTo = None, reason = NONE\<rparr>"
proof -
  from assms have "currentRoute table pathName = None"
    by (simp add: currentRoute_def find_None_iff)
  then show ?thesis
    by (simp add: decide_def allow_def)
qed

theorem decide_unlisted_allowed_witness:
  "list_all (\<lambda>route. \<not> routeMatches ''/about'' route) routeRoles
   \<and> decide routeRoles ''/about'' True [''user''] =
       \<lparr>allowed = True, redirectTo = None, reason = NONE\<rparr>
   \<and> decide routeRoles ''/about'' False [] =
       \<lparr>allowed = True, redirectTo = None, reason = NONE\<rparr>"
proof -
  have h: "\<forall>route \<in> set routeRoles. \<not> routeMatches ''/about'' route"
    by code_simp
  from decide_unlisted_allowed [OF h] h show ?thesis
    by (simp add: list_all_iff)
qed

section \<open>The check of the third effect\<close>

text \<open>
  C6: an authenticated identity on one of the pages reserved for visitors is denied with
  reason \<open>AUTH_ONLY_PAGE\<close> and sent to \<open>redirectTo || "/"\<close>: the pending return-to path
  when the query carries one (a non-empty string), else \<open>/\<close>. The check does not read the
  route table. Once nothing is loading its redirect is the last one issued, and the only
  one when the decision of the second effect allows the path. The scenario of the claim
  is the last conjunct.
\<close>

theorem authOnlyCheck_denies:
  assumes "isAuthenticated" and "pathName \<in> set pages"
  shows "authOnlyCheck pages pathName isAuthenticated searchRedirect =
           \<lparr>allowed = False, redirectTo = Some (orElse searchRedirect ''/''),
            reason = AUTH_ONLY_PAGE\<rparr>
         \<and> (searchRedirect = None \<longrightarrow>
              redirectTo (authOnlyCheck pages pathName isAuthenticated searchRedirect) = Some ''/'')
         \<and> (\<forall>target. searchRedirect = Some target \<and> target \<noteq> [] \<longrightarrow>
              redirectTo (authOnlyCheck pages pathName isAuthenticated searchRedirect) = Some target)
         \<and> (\<not> isAuthLoading \<and> \<not> isLoading \<longrightarrow>
              last (redirectsIssued isAuthLoading isLoading table pages pathName isAuthenticated
                      userRoles searchRedirect) =
                authOnlyCheck pages pathName isAuthenticated searchRedirect)
         \<and> (\<not> isAuthLoading \<and> \<not> isLoading
              \<and> allowed (decide table pathName isAuthenticated userRoles) \<longrightarrow>
              redirectsIssued isAuthLoading isLoading table pages pathName isAuthenticated
                      userRoles searchRedirect =
                [authOnlyCheck pages pathName isAuthenticated searchRedirect])
         \<and> authOnlyCheck [''/signin'', ''/signup''] ''/signin'' True None =
              \<lparr>allowed = False, redirectTo = Some ''/'', reason = AUTH_ONLY_PAGE\<rparr>"
  using assms
  by (simp add: authOnlyCheck_def redirectsIssued_def deny_def orElse_def)

theorem authOnlyCheck_denies_witness:
  "''/signin'' \<in> set pageAccessOnlyIfUnAuthenticated
   \<and> authOnlyCheck pageAccessOnlyIfUnAuthenticated ''/signin'' True (Some ''/contact/us'') =
       \<lparr>allowed = False, redirectTo = Some ''/contact/us'', reason = AUTH_ONLY_PAGE\<rparr>
   \<and> allowed (decide routeRoles ''/signin'' True [''user''])
   \<and> redirectsIssued False False routeRoles pageAccessOnlyIfUnAuthenticated ''/signin'' True
        [''user''] (Some ''/contact/us'') =
       [\<lparr>allowed = False, redirectTo = Some ''/contact/us'', reason = AUTH_ONLY_PAGE\<rparr>]"
proof -
  have h: "''/signin'' \<in> set pageAccessOnlyIfUnAuthenticated"
    by (simp add: pageAccessOnlyIfUnAuthenticated_def)
  have a: "allowed (decide routeRoles ''/signin'' True [''user''])"
    by code_simp
  from authOnlyCheck_denies
         [OF _ h, of True "Some ''/contact/us''" False False routeRoles "[''user'']"] h a
  show ?thesis
    by (simp add: orElse_def)
qed

section \<open>The return-to parameter\<close>

lemma nibble_cases: "n < 16 \<Longrightarrow> n \<in> set [0..<16]"
  by simp

lemma hexValue_hexDigit: "n < 16 \<Longrightarrow> hexValue (hexDigit n) = Some n"
proof -
  have "\<forall>n \<in> set [0..<16]. hexValue (hexDigit n) = Some n"
    by code_simp
  then show "n < 16 \<Longrightarrow> hexValue (hexDigit n) = Some n"
    using nibble_cases by blast
qed

lemma of_char_less_256: "(of_char c :: nat) < 256"
proof -
  have "(of_char c :: nat) mod 256 < 256" by simp
  then show ?thesis by (simp only: of_char_mod_256)
qed

lemma high_nibble_less: "(of_char c :: nat) div 16 < 16"
  by (rule less_mult_imp_div_less) (simp add: of_char_less_256)

lemma percentDecode_plain:
  "c \<noteq> CHR ''%'' \<Longrightarrow> percentDecode (c # rest) = c # percentDecode rest"
  by (cases "(c # rest)" rule: percentDecode.cases) auto

lemma percentDecode_encoded:
  "percentDecode (percentEncodeByte c @ rest) = c # percentDecode rest"
  by (simp add: percentEncodeByte_def hexValue_hexDigit high_nibble_less)

lemma uriUnreserved_not_percent: "uriUnreserved c \<Longrightarrow> c \<noteq> CHR ''%''"
  by (auto simp: uriUnreserved_def)

lemma percentDecode_encodeURIComponent:
  "percentDecode (encodeURIComponent s @ rest) = s @ percentDecode rest"
  by (induction s)
     (simp_all add: encodeURIComponent_def percentDecode_plain percentDecode_encoded
        uriUnreserved_not_percent)

lemma uriUnreserved_not_delimiter: "uriUnreserved c \<Longrightarrow> \<not> queryDelimiter c"
  by (auto simp: uriUnreserved_def queryDelimiter_def)

lemma hexDigit_not_delimiter: "n < 16 \<Longrightarrow> \<not> queryDelimiter (hexDigit n)"
proof -
  have "\<forall>n \<in> set [0..<16]. \<not> queryDelimiter (hexDigit n)"
    by code_simp
  then show "n < 16 \<Longrightarrow> \<not> queryDelimiter (hexDigit n)"
    using nibble_cases by blast
qed

lemma percentEncodeByte_not_delimiter:
  "x \<in> set (percentEncodeByte c) \<Longrightarrow> \<not> queryDelimiter x"
proof -
  have "\<not> queryDelimiter CHR ''%''" by (simp add: queryDelimiter_def)
  moreover have "\<not> queryDelimiter (hexDigit (of_char c div 16))"
    by (rule hexDigit_not_delimiter) (rule high_nibble_less)
  moreover have "\<not> queryDelimiter (hexDigit (of_char c mod 16))"
    by (rule hexDigit_not_delimiter) simp
  ultimately show "x \<in> set (percentEncodeByte c) \<Longrightarrow> \<not> queryDelimiter x"
    by (auto simp: percentEncodeByte_def)
qed

lemma encodeURIComponent_not_delimiter:
  "x \<in> set (encodeURIComponent s) \<Longrightarrow> \<not> queryDelimiter x"
  by (auto simp: encodeURIComponent_def uriUnreserved_not_delimiter
        dest: percentEncodeByte_not_delimiter split: if_splits)

lemma splitOn_absent: "d \<notin> set s \<Longrightarrow> splitOn d s = [s]"
  by (induction s) auto

lemma plusToSpace_absent: "CHR ''+'' \<notin> set s \<Longrightarrow> plusToSpace s = s"
  by (induction s) (auto simp: plusToSpace_def)

lemma encoded_free:
  "CHR ''&'' \<notin> set (encodeURIComponent s)" "CHR ''='' \<notin> set (encodeURIComponent s)"
  "CHR ''+'' \<notin> set (encodeURIComponent s)" "CHR ''#'' \<notin> set (encodeURIComponent s)"
  using encodeURIComponent_not_delimiter [of _ s]
  by (auto simp: queryDelimiter_def)

lemma extractQuery_signIn:
  "extractQuery (signInPathWithReturnTo p) = ''redirect='' @ encodeURIComponent p"
proof -
  have "\<forall>x \<in> set (encodeURIComponent p). x \<noteq> CHR ''#''"
    using encoded_free(4) [of p] by auto
  then have "takeWhile (\<lambda>c. c \<noteq> CHR ''#'') (encodeURIComponent p) = encodeURIComponent p"
    by (simp add: takeWhile_eq_all_conv)
  then show ?thesis
    by (simp add: extractQuery_def signInPathWithReturnTo_def)
qed

lemma parseQuery_redirect:
  "parseQuery (''redirect='' @ encodeURIComponent p) = [(''redirect'', p)]"
proof -
  let ?e = "encodeURIComponent p"
  have split: "splitOn CHR ''&'' (''redirect='' @ ?e) = [''redirect='' @ ?e]"
    using encoded_free(1) [of p] by (intro splitOn_absent) simp
  have dec: "percentDecode ?e = p"
    using percentDecode_encodeURIComponent [of p "[]"] by simp
  have "parsePair (''redirect='' @ ?e) = (''redirect'', p)"
    using encoded_free(3) [of p]
    by (simp add: parsePair_def plusToSpace_absent dec)
  with split show ?thesis
    by (simp add: parseQuery_def)
qed

lemma searchParams_round_trip:
  "searchParams_get (parseQuery (extractQuery (signInPathWithReturnTo p))) ''redirect'' = Some p"
  unfolding extractQuery_signIn parseQuery_redirect
  by (simp add: searchParams_get_def)

text \<open>
  C5: for every valid path, that is every non-empty one (a pathname starts with \<open>/\<close>),
  reading the \<open>redirect\<close> parameter back from the query of the sign-in URL built for the
  path, as \<open>searchParams.get("redirect") || "/"\<close> does, gives the path again, whatever
  reserved characters it holds.
\<close>

theorem returnTo_round_trip:
  assumes "p \<noteq> []"
  shows "resolveReturnTo (extractQuery (signInPathWithReturnTo p)) = p"
  using assms by (simp add: resolveReturnTo_def searchParams_round_trip orElse_def)

theorem returnTo_round_trip_witness:
  "''/search?q=a&b=c d#x+%'' \<noteq> []
   \<and> signInPathWithReturnTo ''/search?q=a&b=c d#x+%'' =
       ''/signin?redirect=%2Fsearch%3Fq%3Da%26b%3Dc%20d%23x%2B%25''
   \<and> resolveReturnTo (extractQuery ''/signin?redirect=%2Fsearch%3Fq%3Da%26b%3Dc%20d%23x%2B%25'') =
       ''/search?q=a&b=c d#x+%''"
proof -
  have ne: "''/search?q=a&b=c d#x+%'' \<noteq> []" by simp
  have enc: "signInPathWithReturnTo ''/search?q=a&b=c d#x+%'' =
       ''/signin?redirect=%2Fsearch%3Fq%3Da%26b%3Dc%20d%23x%2B%25''"
    by code_simp
  from returnTo_round_trip [OF ne] show ?thesis
    unfolding enc by simp
qed

text \<open>The empty string is no path: its sign-in URL reads back as the home path.\<close>

lemma returnTo_empty_path: "resolveReturnTo (extractQuery (signInPathWithReturnTo [])) = ''/''"
  by code_simp

text \<open>
  C2: when the matched policy needs authentication and the identity is not authenticated,
  the decision is a denial with reason \<open>NOT_AUTHENTICATED\<close> whose target is the sign-in
  path with the requested path, encoded, as its \<open>redirect\<close> parameter: the parameter
  decodes to exactly that path. The roles of the identity play no part.
\<close>

theorem decide_not_authenticated:
  assumes "currentRoute table pathName = Some route"
    and "needAuth route = Some True"
    and "\<not> isAuthenticated"
  shows "decide table pathName isAuthenticated userRoles =
           \<lparr>allowed = False,
            redirectTo = Some (''/signin?redirect='' @ encodeURIComponent pathName),
            reason = NOT_AUTHENTICATED\<rparr>
         \<and> searchParams_get
             (parseQuery (extractQuery (''/signin?redirect='' @ encodeURIComponent pathName)))
             ''redirect'' = Some pathName"
proof -
  from assms have "decide table pathName isAuthenticated userRoles =
      deny (signInPathWithReturnTo pathName) NOT_AUTHENTICATED"
    by (simp add: decide_Some)
  moreover have "searchParams_get
      (parseQuery (extractQuery (signInPathWithReturnTo pathName))) ''redirect'' = Some pathName"
    by (rule searchParams_round_trip)
  ultimately show ?thesis
    unfolding signInPathWithReturnTo_def deny_def by simp
qed

theorem decide_not_authenticated_witness:
  "currentRoute routeRoles ''/admin/dashboard'' = Some adminPolicy
   \<and> needAuth adminPolicy = Some True
   \<and> decide routeRoles ''/admin/dashboard'' False [''user''] =
       \<lparr>allowed = False, redirectTo = Some ''/signin?redirect=%2Fadmin%2Fdashboard'',
        reason = NOT_AUTHENTICATED\<rparr>"
proof -
  have h1: "currentRoute routeRoles ''/admin/dashboard'' = Some adminPolicy"
    by code_simp
  have h2: "needAuth adminPolicy = Some True"
    by (simp add: adminPolicy_def)
  have enc: "encodeURIComponent ''/admin/dashboard'' = ''%2Fadmin%2Fdashboard''"
    by code_simp
  from decide_not_authenticated [OF h1 h2, of False "[''user'']"] h1 h2 show ?thesis
    unfolding enc by simp
qed

section \<open>Permissions\<close>

lemma someRoleIncludes_known:
  "\<forall>r \<in> set rs. ROLES r \<noteq> None \<Longrightarrow>
   someRoleIncludes rs permission =
     Inr (\<exists>r \<in> set rs. \<exists>perms. ROLES r = Some perms \<and> permission \<in> set perms)"
  by (induction rs) auto

lemma someRoleIncludes_True:
  "someRoleIncludes rs permission = Inr True \<Longrightarrow>
   \<exists>r \<in> set rs. \<exists>perms. ROLES r = Some perms \<and> permission \<in> set perms"
  by (induction rs) (auto split: option.splits if_splits)

lemma someRoleIncludes_unknown:
  "r \<in> set rs \<Longrightarrow> ROLES r = None \<Longrightarrow>
   someRoleIncludes rs permission \<noteq> Inr False \<and>
   (someRoleIncludes rs permission = Inl TypeError \<longleftrightarrow>
      \<not> (\<exists>q \<in> set (takeWhile (\<lambda>q. ROLES q \<noteq> None) rs).
           \<exists>perms. ROLES q = Some perms \<and> permission \<in> set perms))"
  by (induction rs) (auto split: option.splits if_splits)

text \<open>
  C7, as stated, fails: an identity may hold a role that \<open>ROLES\<close> does not list and
  \<open>hasPermission\<close> still returns true without any failure, because \<open>some\<close> stops at an
  earlier role that grants the permission and never looks the unlisted role up.
\<close>

theorem hasPermission_unknown_role_unreached:
  "ROLES ''ghost'' = None
   \<and> hasPermission \<lparr>roles = [''admin'', ''ghost''], user_id = ''1''\<rparr> ''delete:comments''
       = Inr True"
  by code_simp

text \<open>
  C7, amended: when an identity holds a role that \<open>ROLES\<close> does not list,
  \<open>hasPermission\<close> never answers false, so the role is never read as one without
  permissions. It fails, with the \<open>TypeError\<close> of calling \<open>includes\<close> on a missing table
  entry, exactly when no role before the first unlisted one grants the permission, and
  returns true otherwise; for an identity holding only that role it always fails.
\<close>

theorem hasPermission_unknown_role:
  assumes "ROLES r = None" and "r \<in> set (roles user)"
  shows "hasPermission user permission \<noteq> Inr False
         \<and> (hasPermission user permission = Inl TypeError \<longleftrightarrow>
              \<not> (\<exists>q \<in> set (takeWhile (\<lambda>q. ROLES q \<noteq> None) (roles user)).
                   \<exists>perms. ROLES q = Some perms \<and> permission \<in> set perms))
         \<and> hasPermission \<lparr>roles = [r], user_id = uid\<rparr> permission = Inl TypeError"
proof -
  have "hasPermission \<lparr>roles = [r], user_id = uid\<rparr> permission = Inl TypeError"
    using assms(1) by (simp add: hasPermission_def)
  with someRoleIncludes_unknown [OF assms(2,1), of permission] show ?thesis
    by (simp add: hasPermission_def)
qed

theorem hasPermission_unknown_role_witness:
  "ROLES ''ghost'' = None
   \<and> ''ghost'' \<in> set (roles \<lparr>roles = [''user'', ''ghost''], user_id = ''1''\<rparr>)
   \<and> hasPermission \<lparr>roles = [''user'', ''ghost''], user_id = ''1''\<rparr> ''delete:comments''
       \<noteq> Inr False
   \<and> hasPermission \<lparr>roles = [''user'', ''ghost''], user_id = ''1''\<rparr> ''delete:comments''
       = Inl TypeError
   \<and> hasPermission \<lparr>roles = [''ghost''], user_id = ''1''\<rparr> ''view:comments'' = Inl TypeError"
proof -
  have h1: "ROLES ''ghost'' = None" by code_simp
  have h2: "''ghost'' \<in> set (roles \<lparr>roles = [''user'', ''ghost''], user_id = ''1''\<rparr>)"
    by simp
  have e: "hasPermission \<lparr>roles = [''user'', ''ghost''], user_id = ''1''\<rparr> ''delete:comments''
      = Inl TypeError"
    by code_simp
  from hasPermission_unknown_role [OF h1 h2, of "''delete:comments''" "''1''"]
       hasPermission_unknown_role [OF h1 h2, of "''view:comments''" "''1''"] h1 h2 e
  show ?thesis by simp
qed

text \<open>
  C8: for an identity whose roles are all keys of \<open>ROLES\<close> (the type \<open>Role\<close>),
  \<open>hasPermission\<close> returns true exactly when one of its roles lists the permission. An
  admin may delete comments and a user may not.
\<close>

theorem hasPermission_iff:
  assumes "\<forall>r \<in> set (roles user). ROLES r \<noteq> None"
  shows "hasPermission user permission =
           Inr (\<exists>r \<in> set (roles user). \<exists>perms. ROLES r = Some perms \<and> permission \<in> set perms)
         \<and> hasPermission \<lparr>roles = [''admin''], user_id = uid\<rparr> ''delete:comments'' = Inr True
         \<and> hasPermission \<lparr>roles = [''user''], user_id = uid\<rparr> ''delete:comments'' = Inr False"
proof -
  have "hasPermission \<lparr>roles = [''admin''], user_id = uid\<rparr> ''delete:comments'' = Inr True"
    by (simp add: hasPermission_def ROLES_def)
  moreover
  have "hasPermission \<lparr>roles = [''user''], user_id = uid\<rparr> ''delete:comments'' = Inr False"
    by (simp add: hasPermission_def ROLES_def)
  ultimately show ?thesis
    using assms by (simp add: hasPermission_def someRoleIncludes_known)
qed

theorem hasPermission_iff_witness:
  "list_all (\<lambda>r. ROLES r \<noteq> None) (roles \<lparr>roles = [''user'', ''moderator''], user_id = ''7''\<rparr>)
   \<and> hasPermission \<lparr>roles = [''user'', ''moderator''], user_id = ''7''\<rparr> ''delete:comments''
       = Inr True
   \<and> hasPermission \<lparr>roles = [''user'', ''moderator''], user_id = ''7''\<rparr> ''update:comments''
       = Inr False"
proof -
  have h: "\<forall>r \<in> set (roles \<lparr>roles = [''user'', ''moderator''], user_id = ''7''\<rparr>).
             ROLES r \<noteq> None"
    by (simp add: ROLES_def)
  from hasPermission_iff [OF h, of "''delete:comments''"]
       hasPermission_iff [OF h, of "''update:comments''"] h
  show ?thesis
    by (simp add: ROLES_def list_all_iff)
qed

section \<open>Middleware chaining\<close>

lemma chainMiddleware_total: "chainMiddleware_dom (fs, i)"
proof (induction "nat (int (length fs) - i)" arbitrary: i)
  case 0
  then have outside: "\<not> (0 \<le> i \<and> i < int (length fs))" by simp
  show ?case
  proof (rule chainMiddleware.domintros)
    assume "0 \<le> i" and "i < int (length fs)"
    with outside show "chainMiddleware_dom (fs, i + 1)" by simp
  qed
next
  case (Suc n)
  then have "n = nat (int (length fs) - (i + 1))" by simp
  then have next_call: "chainMiddleware_dom (fs, i + 1)" by (rule Suc.hyps(1))
  show ?case
  proof (rule chainMiddleware.domintros)
    show "chainMiddleware_dom (fs, i + 1)" by (rule next_call)
  qed
qed

lemma chain_base:
  "\<not> (0 \<le> i \<and> i < int (length fs)) \<Longrightarrow>
   chainMiddleware fs i = (\<lambda>request event response. Response response)"
  by (subst chainMiddleware.simps) auto

lemma chain_step:
  "0 \<le> i \<Longrightarrow> i < int (length fs) \<Longrightarrow>
   chainMiddleware fs i = (fs ! nat i) (chainMiddleware fs (i + 1))"
  by (subst chainMiddleware.simps) simp

lemma chain_foldr:
  "chainMiddleware fs (int i) =
     foldr (\<lambda>f next. f next) (drop i fs) (\<lambda>request event response. Response response)"
proof (induction "length fs - i" arbitrary: i)
  case 0
  then show ?case by (simp add: chain_base)
next
  case (Suc n)
  then have lt: "i < length fs" by simp
  from Suc have "n = length fs - Suc i" by simp
  from Suc.hyps(1) [OF this]
  have IH: "chainMiddleware fs (int (Suc i)) =
     foldr (\<lambda>f next. f next) (drop (Suc i) fs) (\<lambda>request event response. Response response)" .
  have step: "chainMiddleware fs (int i) = (fs ! i) (chainMiddleware fs (int (Suc i)))"
    using lt chain_step [of "int i" fs] by (simp add: add.commute)
  have d: "drop i fs = fs ! i # drop (Suc i) fs"
    using lt by (simp add: Cons_nth_drop_Suc)
  note step
  also have "(fs ! i) (chainMiddleware fs (int (Suc i))) =
      (fs ! i) (foldr (\<lambda>f next. f next) (drop (Suc i) fs)
                 (\<lambda>request event response. Response response))"
    by (simp only: IH)
  also have "\<dots> = foldr (\<lambda>f next. f next) (drop i fs)
                 (\<lambda>request event response. Response response)"
    by (simp add: d)
  finally show ?case .
qed

text \<open>
  C10: \<open>chainMiddleware\<close> terminates on every list of factories and every index: the
  pair lies in the domain of the recursion, whose calls raise the index by one until it
  leaves the list. From an index inside the list the result applies the remaining
  factories, from the right, to the middleware that returns its response (from the default
  index 0, all of them); from any other index, and so for the empty list, the result is
  that middleware itself.
\<close>

theorem chainMiddleware_terminates:
  "chainMiddleware_dom (functions, index)
   \<and> chainMiddleware functions index =
       (if 0 \<le> index \<and> index < int (length functions)
        then foldr (\<lambda>f next. f next) (drop (nat index) functions)
               (\<lambda>request event response. Response response)
        else (\<lambda>request event response. Response response))
   \<and> chainMiddleware functions 0 =
       foldr (\<lambda>f next. f next) functions (\<lambda>request event response. Response response)
   \<and> chainMiddleware [] index request event response = Response response"
proof -
  have "chainMiddleware functions (int (nat index)) =
     foldr (\<lambda>f next. f next) (drop (nat index) functions)
       (\<lambda>request event response. Response response)"
    by (rule chain_foldr)
  moreover have "chainMiddleware functions 0 =
     foldr (\<lambda>f next. f next) functions (\<lambda>request event response. Response response)"
    using chain_foldr [of _ 0] by simp
  ultimately show ?thesis
    by (auto simp: chainMiddleware_total chain_base)
qed

end
